theory Spec2Isabelle
  imports Main
begin

section \<open>Data model of \<^verbatim>\<open>bclib/cache/dict_cache_manager.py\<close>\<close>

text \<open>
  \<^verbatim>\<open>CacheStatus\<close> is the enum of \<^verbatim>\<open>cache_status.py\<close>; the members listed are the ones
  the manager returns.
\<close>

datatype CacheStatus = NONE | UPDATED | RESET | CLEANED | REMOVED | SET

text \<open>
  The exceptions the modelled code raises: \<^verbatim>\<open>ValueError("key is None!")\<close> in the decorator,
  the \<^verbatim>\<open>TypeError\<close> of Python's \<^verbatim>\<open>min\<close> on a string and an integer, and the plain
  \<^verbatim>\<open>Exception\<close> of the signaler factory (with its message).
\<close>

datatype error = ValueError string | TypeError | Exception string

text \<open>
  A cache item is an object built by \<^verbatim>\<open>CostumCacheItem(data, life_time)\<close> or by
  \<^verbatim>\<open>FunctionCacheItem(data, life_time, function)\<close>. The item classes are not part of the
  modelled file, so an item is the record of its constructor arguments, together with the
  identity of the object (\<open>obj_id\<close>, Python's \<^verbatim>\<open>id(item)\<close>): two items built from equal
  arguments are still two objects, created at different times. A payload is
  \<open>'d option\<close>, with \<open>None\<close> for Python's \<^verbatim>\<open>None\<close>; \<open>'f\<close> is the type of the memoized
  functions.
\<close>

datatype ('d, 'f) cache_item =
    CostumCacheItem (obj_id: nat) (item_data: "'d option") (costum_life_time: "int option")
  | FunctionCacheItem (obj_id: nat) (item_data: "'d option") (function_life_time: int)
      (item_function: 'f)

text \<open>
  \<^verbatim>\<open>item.data()\<close> is a method of the item classes; it reads the clock and the item's
  (mutable) payload. Every operation that calls it takes it as the parameter \<open>dat\<close>: the
  function that \<^verbatim>\<open>data()\<close> computes at the moment of the call, \<open>None\<close> standing for
  Python's \<^verbatim>\<open>None\<close> (expired, or no payload).
\<close>

type_synonym ('d, 'f) data_fn = "('d, 'f) cache_item \<Rightarrow> 'd option"

text \<open>
  An \<^verbatim>\<open>OrderedDict\<close> is an association list in iteration order (oldest first); its keys
  are distinct (\<open>od_inv\<close>).
\<close>

type_synonym 'v ordered_dict = "(string \<times> 'v) list"

definition od_inv :: "'v ordered_dict \<Rightarrow> bool" where
  "od_inv d = distinct (map fst d)"

definition od_keys :: "'v ordered_dict \<Rightarrow> string list" where
  "od_keys d = map fst d"

text \<open>\<^verbatim>\<open>key in d\<close>\<close>

definition od_contains :: "string \<Rightarrow> 'v ordered_dict \<Rightarrow> bool" where
  "od_contains key d = (map_of d key \<noteq> None)"

text \<open>\<^verbatim>\<open>d[key] = v\<close>: an existing key keeps its position, a new key goes to the end.\<close>

definition od_setitem :: "string \<Rightarrow> 'v \<Rightarrow> 'v ordered_dict \<Rightarrow> 'v ordered_dict" where
  "od_setitem key v d =
     (if od_contains key d then map (\<lambda>(k, w). if k = key then (k, v) else (k, w)) d
      else d @ [(key, v)])"

text \<open>
  \<^verbatim>\<open>d.move_to_end(key)\<close>. Python raises \<^verbatim>\<open>KeyError\<close> on a missing key; every call
  in the manager comes after \<^verbatim>\<open>key in d\<close> or after \<^verbatim>\<open>d[key] = ...\<close>
  (lemma \<open>od_contains_setitem\<close>), so that branch is never taken and leaves \<open>d\<close> as it is.
\<close>

definition move_to_end :: "string \<Rightarrow> 'v ordered_dict \<Rightarrow> 'v ordered_dict" where
  "move_to_end key d =
     (case map_of d key of
        None \<Rightarrow> d
      | Some v \<Rightarrow> filter (\<lambda>(k, w). k \<noteq> key) d @ [(key, v)])"

text \<open>
  \<^verbatim>\<open>d.popitem(last=False)\<close> removes the first pair. Python raises \<^verbatim>\<open>KeyError\<close> on
  an empty dictionary; the only call comes right after an insertion
  (lemma \<open>od_setitem_not_Nil\<close>).
\<close>

definition popitem_first :: "'v ordered_dict \<Rightarrow> 'v ordered_dict" where
  "popitem_first d = (case d of [] \<Rightarrow> [] | p # rest \<Rightarrow> rest)"

text \<open>\<^verbatim>\<open>d.pop(key)\<close>, called only under \<^verbatim>\<open>key in d\<close>.\<close>

definition od_pop :: "string \<Rightarrow> 'v ordered_dict \<Rightarrow> 'v ordered_dict" where
  "od_pop key d = filter (\<lambda>(k, w). k \<noteq> key) d"

text \<open>\<^verbatim>\<open>d[key].append(x)\<close>: the bucket grows in place, the key keeps its position.\<close>

definition od_append :: "string \<Rightarrow> 'a \<Rightarrow> 'a list ordered_dict \<Rightarrow> 'a list ordered_dict" where
  "od_append key x d = map (\<lambda>(k, b). if k = key then (k, b @ [x]) else (k, b)) d"

text \<open>
  The state: the manager's fields and the two pieces of the Python heap the manager
  touches. \<open>max_size\<close>, \<open>default_life_time\<close> and \<open>max_life_time\<close> are set by the base
  class \<^verbatim>\<open>InMemoryCacheManager\<close> from the options; \<open>cache_dict\<close> is
  \<^verbatim>\<open>self.__cache_dict\<close>; \<open>next_id\<close> is the identity the next constructed item gets;
  \<open>function_cache\<close> is the attribute \<^verbatim>\<open>function.cache\<close> of each function object.
\<close>

record ('d, 'f) state =
  max_size :: nat
  default_life_time :: int
  max_life_time :: int
  cache_dict :: "('d, 'f) cache_item list ordered_dict"
  next_id :: nat
  function_cache :: "'f \<Rightarrow> ('d, 'f) cache_item option"

definition init :: "nat \<Rightarrow> int \<Rightarrow> int \<Rightarrow> ('d, 'f) state" where
  "init capacity default_lt max_lt =
     \<lparr>max_size = capacity, default_life_time = default_lt, max_life_time = max_lt,
      cache_dict = [], next_id = 0, function_cache = (\<lambda>f. None)\<rparr>"

section \<open>The operations\<close>

text \<open>\<^verbatim>\<open>_size\<close>: \<^verbatim>\<open>len(self.__cache_dict)\<close>.\<close>

definition size_cache :: "('d, 'f) state \<Rightarrow> nat" where
  "size_cache st = length (cache_dict st)"

text \<open>
  Modelled from the spec: the property \<^verbatim>\<open>_is_valid_size\<close> of the base class
  \<^verbatim>\<open>InMemoryCacheManager\<close> is missing from the sources. The spec bounds the store by
  \<^verbatim>\<open>capacity\<close>, counted in keys, and evicts when a new key pushes the number of keys over
  it: the size is valid when it is at most \<open>max_size\<close>.
\<close>

definition is_valid_size :: "('d, 'f) state \<Rightarrow> bool" where
  "is_valid_size st = (size_cache st \<le> max_size st)"

text \<open>\<^verbatim>\<open>_add_to_cache(key, cache_item)\<close>\<close>

definition add_to_cache ::
  "string \<Rightarrow> ('d, 'f) cache_item \<Rightarrow> ('d, 'f) state \<Rightarrow> CacheStatus \<times> ('d, 'f) state" where
  "add_to_cache key cache_item st =
     (if od_contains key (cache_dict st) then
        (UPDATED, st\<lparr>cache_dict := move_to_end key (od_append key cache_item (cache_dict st))\<rparr>)
      else
        (let st1 = st\<lparr>cache_dict := od_setitem key [cache_item] (cache_dict st)\<rparr>;
             st2 = (if \<not> is_valid_size st1
                    then st1\<lparr>cache_dict := popitem_first (cache_dict st1)\<rparr> else st1)
         in (UPDATED, st2)))"

text \<open>Constructing \<^verbatim>\<open>CostumCacheItem(data, life_time)\<close>: a fresh object.\<close>

definition new_costum ::
  "'d option \<Rightarrow> int option \<Rightarrow> ('d, 'f) state \<Rightarrow> ('d, 'f) cache_item \<times> ('d, 'f) state" where
  "new_costum data life_time st =
     (CostumCacheItem (next_id st) data life_time, st\<lparr>next_id := Suc (next_id st)\<rparr>)"

text \<open>\<^verbatim>\<open>add_or_update(key, data, life_time=None)\<close>\<close>

definition add_or_update ::
  "string \<Rightarrow> 'd option \<Rightarrow> int option \<Rightarrow> ('d, 'f) state \<Rightarrow> CacheStatus \<times> ('d, 'f) state" where
  "add_or_update key data life_time st =
     (let (cache_item, st1) = new_costum data life_time st in add_to_cache key cache_item st1)"

text \<open>\<^verbatim>\<open>set_data(key, data, life_time=None)\<close>\<close>

definition set_data ::
  "string \<Rightarrow> 'd option \<Rightarrow> int option \<Rightarrow> ('d, 'f) state \<Rightarrow> CacheStatus \<times> ('d, 'f) state" where
  "set_data key data life_time st =
     (let (cache_item, st1) = new_costum data life_time st
      in (SET, st1\<lparr>cache_dict :=
                     move_to_end key (od_setitem key [cache_item] (cache_dict st1))\<rparr>))"

text \<open>\<^verbatim>\<open>_update(key, data, life_time=None)\<close>: the item is built only when the key exists.\<close>

definition update_cache ::
  "string \<Rightarrow> 'd option \<Rightarrow> int option \<Rightarrow> ('d, 'f) state \<Rightarrow> bool \<times> ('d, 'f) state" where
  "update_cache key data life_time st =
     (if od_contains key (cache_dict st) then
        (let (cache_item, st1) = new_costum data life_time st
         in (True, st1\<lparr>cache_dict :=
                         move_to_end key (od_append key cache_item (cache_dict st1))\<rparr>))
      else (False, st))"

text \<open>
  \<^verbatim>\<open>get_cache(key)\<close>: the list comprehension keeps \<^verbatim>\<open>item.data()\<close> of the items whose
  \<^verbatim>\<open>item.data()\<close> is not \<^verbatim>\<open>None\<close>; the result is \<^verbatim>\<open>None\<close> when that list is empty.
\<close>

definition get_cache ::
  "('d, 'f) data_fn \<Rightarrow> string \<Rightarrow> ('d, 'f) state \<Rightarrow> 'd list option \<times> ('d, 'f) state" where
  "get_cache dat key st =
     (if od_contains key (cache_dict st) then
        (let st1 = st\<lparr>cache_dict := move_to_end key (cache_dict st)\<rparr>;
             bucket = (case map_of (cache_dict st1) key of None \<Rightarrow> [] | Some b \<Rightarrow> b);
             cache_list = map (\<lambda>item. the (dat item)) (filter (\<lambda>item. dat item \<noteq> None) bucket)
         in (if length cache_list > 0 then Some cache_list else None, st1))
      else (None, st))"

text \<open>
  \<^verbatim>\<open>remove(key, data)\<close>: the loop stops at the first item whose \<^verbatim>\<open>data()\<close> equals
  \<^verbatim>\<open>data\<close>; \<^verbatim>\<open>cache_list.remove(selected_item)\<close> deletes the first element equal to it
  from the bucket, in place.
\<close>

definition remove_cache ::
  "('d, 'f) data_fn \<Rightarrow> string \<Rightarrow> 'd option \<Rightarrow> ('d, 'f) state \<Rightarrow> CacheStatus \<times> ('d, 'f) state"
  where
  "remove_cache dat key data st =
     (case map_of (cache_dict st) key of
        Some cache_list \<Rightarrow>
          (case find (\<lambda>item. dat item = data) cache_list of
             Some selected_item \<Rightarrow>
               (REMOVED,
                st\<lparr>cache_dict := od_setitem key (remove1 selected_item cache_list) (cache_dict st)\<rparr>)
           | None \<Rightarrow> (NONE, st))
      | None \<Rightarrow> (NONE, st))"

text \<open>\<^verbatim>\<open>reset(keys=None)\<close>\<close>

definition reset ::
  "string list option \<Rightarrow> ('d, 'f) state \<Rightarrow> CacheStatus \<times> ('d, 'f) state" where
  "reset keys st =
     (case keys of
        None \<Rightarrow> (RESET, st\<lparr>cache_dict := []\<rparr>)
      | Some ks \<Rightarrow>
          if length ks = 0 then (RESET, st\<lparr>cache_dict := []\<rparr>)
          else (RESET, st\<lparr>cache_dict :=
                  fold (\<lambda>key d. if od_contains key d then od_pop key d else d) ks (cache_dict st)\<rparr>))"

text \<open>
  \<^verbatim>\<open>_clean()\<close>: the outer loop walks the dictionary in order and rebuilds it in
  \<^verbatim>\<open>valid_cache_dict\<close>; the inner loop keeps the items whose \<^verbatim>\<open>data()\<close> is not
  \<^verbatim>\<open>None\<close>.
\<close>

definition clean_step ::
  "('d, 'f) data_fn \<Rightarrow> string \<times> ('d, 'f) cache_item list \<Rightarrow>
   ('d, 'f) cache_item list ordered_dict \<Rightarrow> ('d, 'f) cache_item list ordered_dict" where
  "clean_step dat p valid_cache_dict =
     (let valid_cache_list = filter (\<lambda>item. dat item \<noteq> None) (snd p)
      in if length valid_cache_list > 0
         then od_setitem (fst p) valid_cache_list valid_cache_dict
         else valid_cache_dict)"

definition clean :: "('d, 'f) data_fn \<Rightarrow> ('d, 'f) state \<Rightarrow> CacheStatus \<times> ('d, 'f) state" where
  "clean dat st = (CLEANED, st\<lparr>cache_dict := fold (clean_step dat) (cache_dict st) []\<rparr>)"

subsection \<open>Memoization\<close>

text \<open>
  What a caller can pass as \<^verbatim>\<open>life_time\<close> to \<^verbatim>\<open>cache_decorator\<close>: \<^verbatim>\<open>None\<close>, an
  integer, or a string. The parameter's default value in the source is the string
  \<^verbatim>\<open>"None"\<close>, not \<^verbatim>\<open>None\<close>.
\<close>

datatype py_life_time = PyNone | PyInt int | PyStr string

text \<open>
  \<^verbatim>\<open>min(life_time, self._max_life_time)\<close> with an integer \<^verbatim>\<open>_max_life_time\<close>: Python 3
  raises \<^verbatim>\<open>TypeError\<close> when it compares a string or \<^verbatim>\<open>None\<close> with an integer.
\<close>

definition py_min :: "py_life_time \<Rightarrow> int \<Rightarrow> error + int" where
  "py_min life_time m =
     (case life_time of
        PyInt n \<Rightarrow> Inr (min n m)
      | PyStr s \<Rightarrow> Inl TypeError
      | PyNone \<Rightarrow> Inl TypeError)"

text \<open>
  \<^verbatim>\<open>cache_decorator(key, life_time="None")\<close> resolves the life time and returns the
  closure \<^verbatim>\<open>decorator\<close>, which holds \<^verbatim>\<open>key\<close> and the resolved \<^verbatim>\<open>life_time\<close>. A key is
  \<open>string option\<close>, with \<open>None\<close> for Python's \<^verbatim>\<open>None\<close>.
\<close>

datatype decorator = Decorator (dec_key: "string option") (dec_life_time: int)

definition cache_decorator ::
  "string option \<Rightarrow> py_life_time \<Rightarrow> ('d, 'f) state \<Rightarrow> error + decorator" where
  "cache_decorator key life_time st =
     (if life_time \<noteq> PyNone then
        (case py_min life_time (max_life_time st) of
           Inl e \<Rightarrow> Inl e
         | Inr lt \<Rightarrow> Inr (Decorator key lt))
      else Inr (Decorator key (default_life_time st)))"

text \<open>The call \<^verbatim>\<open>cache_decorator(key)\<close>, with \<^verbatim>\<open>life_time\<close> omitted.\<close>

definition cache_decorator_default ::
  "string option \<Rightarrow> ('d, 'f) state \<Rightarrow> error + decorator" where
  "cache_decorator_default key st = cache_decorator key (PyStr ''None'') st"

text \<open>
  \<^verbatim>\<open>decorator(function)\<close>: the registration. It builds the item, binds it to
  \<^verbatim>\<open>function.cache\<close>, adds it to the store and returns \<^verbatim>\<open>wrapper\<close>, a closure over
  \<^verbatim>\<open>function\<close>.
\<close>

datatype 'f wrapper = Wrapper (wrapped: 'f)

definition decorator ::
  "decorator \<Rightarrow> 'f \<Rightarrow> ('d, 'f) state \<Rightarrow> error + ('f wrapper \<times> ('d, 'f) state)" where
  "decorator dec function st =
     (case dec_key dec of
        Some key \<Rightarrow>
          (let cache_item = FunctionCacheItem (next_id st) None (dec_life_time dec) function;
               st1 = st\<lparr>next_id := Suc (next_id st),
                        function_cache := (function_cache st)(function := Some cache_item)\<rparr>;
               (status, st2) = add_to_cache key cache_item st1
           in Inr (Wrapper function, st2))
      | None \<Rightarrow> Inl (ValueError ''key is None!''))"

text \<open>
  \<^verbatim>\<open>wrapper(*args, **kwargs)\<close> reads \<^verbatim>\<open>function.cache\<close> and calls \<^verbatim>\<open>get_data\<close> on it.
  \<^verbatim>\<open>FunctionCacheItem.get_data\<close> is not part of the modelled file: \<open>wrapper_item\<close> is
  the item the call is dispatched to (\<open>None\<close>: the attribute does not exist).
\<close>

definition wrapper_item :: "'f wrapper \<Rightarrow> ('d, 'f) state \<Rightarrow> ('d, 'f) cache_item option" where
  "wrapper_item w st = function_cache st (wrapped w)"

text \<open>Memoization in one step, \<^verbatim>\<open>cache_decorator(key, life_time)(function)\<close>.\<close>

definition memoize ::
  "string option \<Rightarrow> py_life_time \<Rightarrow> 'f \<Rightarrow> ('d, 'f) state \<Rightarrow>
   error + ('f wrapper \<times> ('d, 'f) state)" where
  "memoize key life_time function st =
     (case cache_decorator key life_time st of
        Inl e \<Rightarrow> Inl e
      | Inr dec \<Rightarrow> decorator dec function st)"

subsection \<open>Sequences of public operations\<close>

datatype ('d, 'f) operation =
    AddOrUpdate string "'d option" "int option"
  | SetData string "'d option" "int option"
  | GetCache "('d, 'f) data_fn" string
  | Remove "('d, 'f) data_fn" string "'d option"
  | Reset "string list option"
  | Clean "('d, 'f) data_fn"
  | Memoize "string option" py_life_time 'f

text \<open>One call; a call that raises leaves the state as it was.\<close>

fun step :: "('d, 'f) operation \<Rightarrow> ('d, 'f) state \<Rightarrow> ('d, 'f) state" where
  "step (AddOrUpdate key data lt) st = snd (add_or_update key data lt st)"
| "step (SetData key data lt) st = snd (set_data key data lt st)"
| "step (GetCache dat key) st = snd (get_cache dat key st)"
| "step (Remove dat key data) st = snd (remove_cache dat key data st)"
| "step (Reset keys) st = snd (reset keys st)"
| "step (Clean dat) st = snd (clean dat st)"
| "step (Memoize key lt function) st =
     (case memoize key lt function st of Inl e \<Rightarrow> st | Inr (w, st1) \<Rightarrow> st1)"

definition run :: "('d, 'f) operation list \<Rightarrow> ('d, 'f) state \<Rightarrow> ('d, 'f) state" where
  "run ops st = foldl (\<lambda>s x. step x s) st ops"

section \<open>The signaler factory, \<^verbatim>\<open>src/cache/signaler/factory.py\<close>\<close>

text \<open>
  A value of the options dictionary: a string, or any other object (kept as its
  \<^verbatim>\<open>str()\<close> rendering, which is all the factory uses of it).
\<close>

datatype py_value = Str string | Other string

definition py_str :: "py_value \<Rightarrow> string" where
  "py_str v = (case v of Str s \<Rightarrow> s | Other r \<Rightarrow> r)"

text \<open>
  \<^verbatim>\<open>options\<close> is \<^verbatim>\<open>None\<close> or a dictionary; \<open>truthy\<close> is Python's truth value of it
  (\<^verbatim>\<open>None\<close> and the empty dictionary are false).
\<close>

type_synonym options = "(string \<times> py_value) list option"

definition truthy :: "options \<Rightarrow> bool" where
  "truthy options = (case options of None \<Rightarrow> False | Some d \<Rightarrow> d \<noteq> [])"

definition has_key :: "string \<Rightarrow> options \<Rightarrow> bool" where
  "has_key key options = (case options of None \<Rightarrow> False | Some d \<Rightarrow> map_of d key \<noteq> None)"

text \<open>
  The two signaler classes are not part of the modelled file; a signaler is the record of
  the constructor call that builds it.
\<close>

datatype 'c signaler = RabbitSignaller options 'c | NoSignaler

definition create_signaler :: "options \<Rightarrow> 'c \<Rightarrow> error + 'c signaler" where
  "create_signaler options callback =
     (let signaler_type =
            (if truthy options \<and> has_key ''type'' options
             then the (map_of (the options) ''type'') else Str ''none'')
      in if signaler_type = Str ''rabbit'' then Inr (RabbitSignaller options callback)
         else if signaler_type = Str ''none'' then Inr NoSignaler
         else Inl (Exception (''unknown type for cache signaller(''
                               @ [CHR 0x27] @ ''$'' @ py_str signaler_type @ [CHR 0x27] @ '')'')))"

section \<open>Vocabulary of the properties\<close>



text \<open>
  Recency. \<open>touched x\<close> is the key whose bucket the call \<open>x\<close> marks newest: the spec's
  \<^verbatim>\<open>put\<close>, \<^verbatim>\<open>set\<close> and \<^verbatim>\<open>get\<close> do, and so does a registration that does not raise;
  \<^verbatim>\<open>remove\<close>, \<^verbatim>\<open>reset\<close> and \<^verbatim>\<open>clean\<close> touch nothing. (A \<^verbatim>\<open>get\<close> of a key that is
  not in the store is counted too; such a key has no bucket, and enters the store only by
  a later touch.) \<open>last_touch xs key\<close> is the position, counted from 1, of the last call
  of the history \<open>xs\<close> that touches \<open>key\<close>, and 0 when no call does.
\<close>

fun touched :: "('d, 'f) operation \<Rightarrow> string option" where
  "touched (AddOrUpdate k data lt) = Some k"
| "touched (SetData k data lt) = Some k"
| "touched (GetCache dat k) = Some k"
| "touched (Memoize k lt function) = (case lt of PyStr s \<Rightarrow> None | PyInt n \<Rightarrow> k | PyNone \<Rightarrow> k)"
| "touched (Remove dat k data) = None"
| "touched (Reset keys) = None"
| "touched (Clean dat) = None"

fun last_touch :: "('d, 'f) operation list \<Rightarrow> string \<Rightarrow> nat" where
  "last_touch [] key = 0"
| "last_touch (x # xs) key =
     (if last_touch xs key \<noteq> 0 then Suc (last_touch xs key)
      else if touched x = Some key then 1 else 0)"

text \<open>
  \<open>recency_ordered stamp ks\<close>: the keys \<open>ks\<close> stand in strictly increasing order of
  their stamps, the least recently touched first.
\<close>

definition recency_ordered :: "(string \<Rightarrow> nat) \<Rightarrow> string list \<Rightarrow> bool" where
  "recency_ordered stamp ks = sorted_wrt (\<lambda>a b. stamp a < stamp b) ks"

text \<open>\<open>is_set_data x\<close>: the call is a \<^verbatim>\<open>set_data\<close>.\<close>

fun is_set_data :: "('d, 'f) operation \<Rightarrow> bool" where
  "is_set_data (SetData k data lt) = True"
| "is_set_data (AddOrUpdate k data lt) = False"
| "is_set_data (GetCache dat k) = False"
| "is_set_data (Remove dat k data) = False"
| "is_set_data (Reset keys) = False"
| "is_set_data (Clean dat) = False"
| "is_set_data (Memoize k lt function) = False"

section \<open>Example states\<close>

text \<open>
  A store of capacity 2 with two keys: \<open>a\<close> holds two values, \<open>b\<close> one. Under
  \<open>example_data\<close> the first item of \<open>a\<close> has expired; under \<open>expired_data\<close> every
  item has.
\<close>

definition example_store :: "(nat, string) state" where
  "example_store =
     \<lparr>max_size = 2, default_life_time = 60, max_life_time = 3600,
      cache_dict =
        [(''a'', [CostumCacheItem 0 (Some 1) None, CostumCacheItem 1 (Some 2) (Some 5)]),
         (''b'', [CostumCacheItem 2 (Some 3) None])],
      next_id = 3, function_cache = (\<lambda>f. None)\<rparr>"

definition example_data :: "(nat, string) data_fn" where
  "example_data item = (if obj_id item = 0 then None else item_data item)"

definition expired_data :: "(nat, string) data_fn" where
  "expired_data item = None"

definition live_data :: "(nat, string) data_fn" where
  "live_data item = item_data item"

section \<open>Lemmas about the ordered dictionary\<close>

lemma map_fst_filter_key: "map fst (filter (\<lambda>(k, w). P k) d) = filter P (map fst d)"
  by (induction d) auto

lemma map_fst_replace:
  "map fst (map (\<lambda>(k, w). if k = key then (k, g w) else (k, w)) d) = map fst d"
  by (induction d) auto



lemma od_contains_iff: "od_contains key d \<longleftrightarrow> key \<in> set (od_keys d)"
  by (simp add: od_contains_def od_keys_def map_of_eq_None_iff)

lemma od_setitem_not_Nil: "od_setitem key v d \<noteq> []"
  by (cases d) (simp_all add: od_setitem_def od_contains_def)

lemma od_keys_setitem:
  "od_keys (od_setitem key v d) = (if od_contains key d then od_keys d else od_keys d @ [key])"
  using map_fst_replace [of key "\<lambda>w. v" d] by (simp add: od_setitem_def od_keys_def)

lemma od_contains_setitem: "od_contains key (od_setitem key v d)"
  by (simp add: od_contains_iff od_keys_setitem)

lemma od_keys_append: "od_keys (od_append key x d) = od_keys d"
  using map_fst_replace [of key "\<lambda>b. b @ [x]" d] by (simp add: od_append_def od_keys_def)

lemma od_contains_append: "od_contains k (od_append key x d) = od_contains k d"
  by (simp add: od_contains_iff od_keys_append)

lemma od_keys_move_to_end:
  "od_contains key d \<Longrightarrow> od_keys (move_to_end key d) = filter (\<lambda>k. k \<noteq> key) (od_keys d) @ [key]"
  by (auto simp: move_to_end_def od_contains_def od_keys_def map_fst_filter_key)




lemma od_inv_filter: "od_inv d \<Longrightarrow> od_inv (filter P d)"
  by (simp add: od_inv_def distinct_map_filter)

lemma od_inv_setitem: "od_inv d \<Longrightarrow> od_inv (od_setitem key v d)"
  using od_keys_setitem [of key v d]
  by (auto simp: od_inv_def od_keys_def od_contains_def map_of_eq_None_iff)

lemma od_inv_append: "od_inv (od_append key x d) = od_inv d"
  using od_keys_append [of key x d] by (simp add: od_inv_def od_keys_def)

lemma od_inv_move_to_end: "od_inv d \<Longrightarrow> od_inv (move_to_end key d)"
  by (auto simp: od_inv_def move_to_end_def map_fst_filter_key split: option.splits)

lemma od_inv_popitem_first: "od_inv d \<Longrightarrow> od_inv (popitem_first d)"
  by (cases d) (simp_all add: od_inv_def popitem_first_def)


lemma example_store_reachable:
  "run [AddOrUpdate ''a'' (Some 1) None, AddOrUpdate ''a'' (Some 2) (Some 5),
        AddOrUpdate ''b'' (Some 3) None] (init 2 60 3600) = example_store"
  by (simp add: run_def example_store_def init_def add_or_update_def new_costum_def
      add_to_cache_def od_contains_def od_setitem_def od_append_def move_to_end_def
      is_valid_size_def size_cache_def popitem_first_def)

section \<open>Reading: \<^verbatim>\<open>get_cache\<close>\<close>



section \<open>Bulk removal: \<^verbatim>\<open>reset\<close> and \<^verbatim>\<open>_clean\<close>\<close>

lemma reset_fold:
  "fold (\<lambda>key d. if od_contains key d then od_pop key d else d) ks d =
     filter (\<lambda>(k, b). k \<notin> set ks) d"
proof (induction ks arbitrary: d)
  case Nil
  show ?case by simp
next
  case (Cons key ks)
  have "(if od_contains key d then od_pop key d else d) = filter (\<lambda>(k, b). k \<noteq> key) d"
    by (force simp: od_pop_def od_contains_def map_of_eq_None_iff intro!: filter_True [symmetric])
  then show ?case
    using Cons.IH by (auto simp: intro!: filter_cong)
qed

text \<open>
  C7. \<^verbatim>\<open>reset\<close> always returns \<^verbatim>\<open>RESET\<close> and changes nothing but the dictionary.
  With no key list, or an empty one, the store is empty afterwards and \<^verbatim>\<open>get_cache\<close> of
  every key returns \<^verbatim>\<open>None\<close>. With a non-empty key list, the store keeps exactly the
  pairs whose key is not named, in their order and with their buckets: the named buckets
  that exist are deleted, a named key that does not exist changes nothing and raises
  nothing.
\<close>

theorem reset_result:
  "fst (reset keys st) = RESET \<and>
   snd (reset keys st) = st\<lparr>cache_dict := cache_dict (snd (reset keys st))\<rparr> \<and>
   (keys = None \<or> keys = Some [] \<longrightarrow>
      cache_dict (snd (reset keys st)) = [] \<and>
      (\<forall>dat key. fst (get_cache dat key (snd (reset keys st))) = None)) \<and>
   (\<forall>ks. keys = Some ks \<and> ks \<noteq> [] \<longrightarrow>
      cache_dict (snd (reset keys st)) = filter (\<lambda>(k, bucket). k \<notin> set ks) (cache_dict st))"
proof (cases keys)
  case None
  then show ?thesis by (simp add: reset_def get_cache_def od_contains_def)
next
  case (Some ks)
  then show ?thesis
  proof (cases "ks = []")
    case True
    with Some show ?thesis by (simp add: reset_def get_cache_def od_contains_def)
  next
    case False
    with Some show ?thesis by (simp add: reset_def reset_fold)
  qed
qed

theorem reset_result_witness:
  "fst (reset (Some [''a'', ''c'']) example_store) = RESET \<and>
   cache_dict (snd (reset (Some [''a'', ''c'']) example_store)) =
     [(''b'', [CostumCacheItem 2 (Some 3) None])] \<and>
   cache_dict (snd (reset None example_store)) = [] \<and>
   fst (get_cache live_data ''a'' (snd (reset None example_store))) = None \<and>
   cache_dict (snd (reset (Some []) example_store)) = []"
  using reset_result [of "Some [''a'', ''c'']" example_store]
    reset_result [of None example_store] reset_result [of "Some []" example_store]
  by (simp add: example_store_def)

lemma clean_fold:
  "distinct (map fst acc @ map fst d) \<Longrightarrow>
   fold (clean_step dat) d acc =
     acc @ filter (\<lambda>(k, b). b \<noteq> []) (map (\<lambda>(k, b). (k, filter (\<lambda>item. dat item \<noteq> None) b)) d)"
proof (induction d arbitrary: acc)
  case Nil
  show ?case by simp
next
  case (Cons p d)
  obtain k b where p: "p = (k, b)" by (cases p)
  have nk: "\<not> od_contains k acc"
    using Cons.prems by (auto simp: p od_contains_def map_of_eq_None_iff)
  show ?case
  proof (cases "filter (\<lambda>item. dat item \<noteq> None) b = []")
    case True
    then have "clean_step dat p acc = acc" by (simp add: clean_step_def p)
    moreover have "distinct (map fst acc @ map fst d)" using Cons.prems by simp
    ultimately show ?thesis using Cons.IH [of acc] True by (simp add: p)
  next
    case False
    then have s: "clean_step dat p acc = acc @ [(k, filter (\<lambda>item. dat item \<noteq> None) b)]"
      using nk by (simp add: clean_step_def p od_setitem_def)
    have "distinct (map fst (acc @ [(k, filter (\<lambda>item. dat item \<noteq> None) b)]) @ map fst d)"
      using Cons.prems by (simp add: p)
    then show ?thesis using Cons.IH [of "acc @ [(k, filter (\<lambda>item. dat item \<noteq> None) b)]"] False s
      by (simp add: p)
  qed
qed

text \<open>
  C8. \<^verbatim>\<open>_clean()\<close> returns \<^verbatim>\<open>CLEANED\<close> and changes nothing but the dictionary. The
  new dictionary walks the old one in its order; each bucket keeps exactly the items whose
  \<^verbatim>\<open>data()\<close> is not \<^verbatim>\<open>None\<close>, in their order, and a key whose bucket becomes empty
  is dropped.
\<close>

theorem clean_result:
  "od_inv (cache_dict st) \<Longrightarrow>
   fst (clean dat st) = CLEANED \<and>
   snd (clean dat st) = st\<lparr>cache_dict := cache_dict (snd (clean dat st))\<rparr> \<and>
   cache_dict (snd (clean dat st)) =
     filter (\<lambda>(key, bucket). bucket \<noteq> [])
       (map (\<lambda>(key, bucket). (key, filter (\<lambda>item. dat item \<noteq> None) bucket)) (cache_dict st))"
  using clean_fold [of "[]" "cache_dict st" dat] by (simp add: clean_def od_inv_def)

theorem clean_result_witness:
  "od_inv (cache_dict example_store) \<and>
   fst (clean example_data example_store) = CLEANED \<and>
   cache_dict (snd (clean example_data example_store)) =
     [(''a'', [CostumCacheItem 1 (Some 2) (Some 5)]), (''b'', [CostumCacheItem 2 (Some 3) None])] \<and>
   cache_dict (snd (clean expired_data example_store)) = []"
proof -
  have inv: "od_inv (cache_dict example_store)"
    by (simp add: od_inv_def example_store_def)
  show ?thesis
    using inv clean_result [OF inv, of example_data] clean_result [OF inv, of expired_data]
    by (simp add: example_store_def example_data_def expired_data_def)
qed

section \<open>The signaler factory\<close>

text \<open>
  C9. \<^verbatim>\<open>create_signaler\<close> raises (the plain \<^verbatim>\<open>Exception\<close> of the source) when the
  options carry a \<^verbatim>\<open>type\<close> that is neither \<^verbatim>\<open>"rabbit"\<close> nor \<^verbatim>\<open>"none"\<close>; it returns
  the rabbit signaler for \<^verbatim>\<open>"rabbit"\<close>, and the disabled signaler for \<^verbatim>\<open>"none"\<close> and
  for options without a \<^verbatim>\<open>type\<close>.
\<close>

theorem create_signaler_result:
  "(\<forall>d t. options = Some d \<and> map_of d ''type'' = Some t \<and> t \<noteq> Str ''rabbit'' \<and> t \<noteq> Str ''none''
      \<longrightarrow> (\<exists>msg. create_signaler options callback = Inl (Exception msg))) \<and>
   (\<forall>d. options = Some d \<and> map_of d ''type'' = Some (Str ''rabbit'')
      \<longrightarrow> create_signaler options callback = Inr (RabbitSignaller options callback)) \<and>
   (\<forall>d. options = Some d \<and> map_of d ''type'' = Some (Str ''none'')
      \<longrightarrow> create_signaler options callback = Inr NoSignaler) \<and>
   (options = None \<or> (\<exists>d. options = Some d \<and> map_of d ''type'' = None)
      \<longrightarrow> create_signaler options callback = Inr NoSignaler)"
  by (auto simp: create_signaler_def truthy_def has_key_def Let_def)

theorem create_signaler_result_witness:
  "create_signaler (Some [(''type'', Str ''kafka'')]) () =
     Inl (Exception (''unknown type for cache signaller('' @ [CHR 0x27] @ ''$kafka'' @ [CHR 0x27] @ '')'')) \<and>
   create_signaler (Some [(''type'', Str ''rabbit'')]) () =
     Inr (RabbitSignaller (Some [(''type'', Str ''rabbit'')]) ()) \<and>
   create_signaler (Some [(''type'', Str ''none'')]) () = Inr NoSignaler \<and>
   create_signaler None () = Inr NoSignaler \<and>
   create_signaler (Some [(''host'', Str ''localhost'')]) () = Inr NoSignaler"
  using create_signaler_result [of "Some [(''type'', Str ''kafka'')]" "()"]
    create_signaler_result [of "Some [(''type'', Str ''rabbit'')]" "()"]
    create_signaler_result [of "Some [(''type'', Str ''none'')]" "()"]
    create_signaler_result [of None "()"]
    create_signaler_result [of "Some [(''host'', Str ''localhost'')]" "()"]
  by (simp add: create_signaler_def truthy_def has_key_def py_str_def)

section \<open>The dictionary after each operation\<close>

lemma od_inv_Nil: "od_inv []"
  by (simp add: od_inv_def)




lemma od_inv_cleaned:
  "od_inv d \<Longrightarrow> od_inv (filter (\<lambda>(k, b). b \<noteq> []) (map (\<lambda>(k, b). (k, f b)) d))"
proof -
  assume "od_inv d"
  then have "od_inv (map (\<lambda>(k, b). (k, f b)) d)"
    using map_fst_replace by (simp add: od_inv_def case_prod_unfold comp_def)
  then show ?thesis by (rule od_inv_filter)
qed

lemma cache_dict_add_to_cache:
  "cache_dict (snd (add_to_cache key item st)) =
     (if od_contains key (cache_dict st)
      then move_to_end key (od_append key item (cache_dict st))
      else if length (cache_dict st) < max_size st then cache_dict st @ [(key, [item])]
      else popitem_first (cache_dict st @ [(key, [item])]))"
  by (auto simp: add_to_cache_def Let_def od_setitem_def is_valid_size_def size_cache_def)

lemma add_to_cache_fields:
  "max_size (snd (add_to_cache key item st)) = max_size st \<and>
   default_life_time (snd (add_to_cache key item st)) = default_life_time st \<and>
   max_life_time (snd (add_to_cache key item st)) = max_life_time st \<and>
   next_id (snd (add_to_cache key item st)) = next_id st \<and>
   function_cache (snd (add_to_cache key item st)) = function_cache st"
  by (simp add: add_to_cache_def Let_def)

lemma od_inv_add_to_cache:
  "od_inv (cache_dict st) \<Longrightarrow> od_inv (cache_dict (snd (add_to_cache key item st)))"
  using od_inv_setitem [of "cache_dict st" key "[item]"]
  by (auto simp: cache_dict_add_to_cache od_inv_move_to_end od_inv_append od_inv_popitem_first
      od_setitem_def)


lemma cache_dict_add_or_update:
  "cache_dict (snd (add_or_update key data lt st)) =
     cache_dict (snd (add_to_cache key (CostumCacheItem (next_id st) data lt)
                        (st\<lparr>next_id := Suc (next_id st)\<rparr>)))"
  by (simp add: add_or_update_def new_costum_def)

lemma cache_dict_set_data:
  "cache_dict (snd (set_data key data lt st)) =
     move_to_end key (od_setitem key [CostumCacheItem (next_id st) data lt] (cache_dict st))"
  by (simp add: set_data_def new_costum_def)

lemma cache_dict_get_cache:
  "cache_dict (snd (get_cache dat key st)) =
     (if od_contains key (cache_dict st) then move_to_end key (cache_dict st) else cache_dict st)"
  by (simp add: get_cache_def Let_def)

lemma cache_dict_remove_cache:
  "cache_dict (snd (remove_cache dat key data st)) =
     (case map_of (cache_dict st) key of
        None \<Rightarrow> cache_dict st
      | Some cache_list \<Rightarrow>
          (case find (\<lambda>item. dat item = data) cache_list of
             None \<Rightarrow> cache_dict st
           | Some selected \<Rightarrow> od_setitem key (remove1 selected cache_list) (cache_dict st)))"
  by (simp add: remove_cache_def split: option.splits)

lemma cache_dict_reset:
  "cache_dict (snd (reset keys st)) =
     (case keys of None \<Rightarrow> [] | Some ks \<Rightarrow>
        if ks = [] then [] else filter (\<lambda>(k, b). k \<notin> set ks) (cache_dict st))"
  by (simp add: reset_def reset_fold split: option.splits)

lemma cache_dict_clean:
  "od_inv (cache_dict st) \<Longrightarrow>
   cache_dict (snd (clean dat st)) =
     filter (\<lambda>(k, b). b \<noteq> [])
       (map (\<lambda>(k, b). (k, filter (\<lambda>item. dat item \<noteq> None) b)) (cache_dict st))"
  using clean_fold [of "[]" "cache_dict st" dat] by (simp add: clean_def od_inv_def)

lemma memoize_cases:
  "memoize key lt function st = Inr (w, st') \<Longrightarrow>
   \<exists>k n. key = Some k \<and> w = Wrapper function \<and>
     st' = snd (add_to_cache k (FunctionCacheItem (next_id st) None n function)
                 (st\<lparr>next_id := Suc (next_id st),
                     function_cache := (function_cache st)(function := Some
                        (FunctionCacheItem (next_id st) None n function))\<rparr>))"
  by (auto simp: memoize_def decorator_def cache_decorator_def Let_def
      split: sum.splits option.splits if_splits prod.splits) (metis snd_conv)+

lemma od_inv_step: "od_inv (cache_dict st) \<Longrightarrow> od_inv (cache_dict (step x st))"
proof (cases x)
  case (AddOrUpdate key data lt)
  assume "od_inv (cache_dict st)"
  then show ?thesis
    using od_inv_add_to_cache [of "st\<lparr>next_id := Suc (next_id st)\<rparr>" key]
    by (simp add: AddOrUpdate cache_dict_add_or_update)
next
  case (SetData key data lt)
  assume "od_inv (cache_dict st)"
  then show ?thesis
    by (simp add: SetData cache_dict_set_data od_inv_move_to_end od_inv_setitem)
next
  case (GetCache dat key)
  assume "od_inv (cache_dict st)"
  then show ?thesis
    by (simp add: GetCache cache_dict_get_cache od_inv_move_to_end)
next
  case (Remove dat key data)
  assume "od_inv (cache_dict st)"
  then show ?thesis
    by (simp add: Remove cache_dict_remove_cache od_inv_setitem split: option.splits)
next
  case (Reset keys)
  assume "od_inv (cache_dict st)"
  then show ?thesis
    using od_inv_filter [of "cache_dict st"]
    by (auto simp: Reset cache_dict_reset od_inv_Nil split: option.splits)
next
  case (Clean dat)
  assume "od_inv (cache_dict st)"
  then show ?thesis
    by (simp add: Clean cache_dict_clean od_inv_cleaned)
next
  case (Memoize key lt fn)
  assume inv: "od_inv (cache_dict st)"
  show ?thesis
  proof (cases "memoize key lt fn st")
    case (Inl e)
    then show ?thesis using inv by (simp add: Memoize)
  next
    case (Inr r)
    obtain w st' where r: "r = (w, st')" by (cases r)
    from memoize_cases [OF Inr [unfolded r]] obtain k n where
      "st' = snd (add_to_cache k (FunctionCacheItem (next_id st) None n fn)
                 (st\<lparr>next_id := Suc (next_id st),
                     function_cache := (function_cache st)(fn := Some
                        (FunctionCacheItem (next_id st) None n fn))\<rparr>))"
      by blast
    then show ?thesis
      using inv od_inv_add_to_cache [of "st\<lparr>next_id := Suc (next_id st),
                     function_cache := (function_cache st)(fn := Some
                        (FunctionCacheItem (next_id st) None n fn))\<rparr>" k]
      by (simp add: Memoize Inr r)
  qed
qed

lemma run_Nil: "run [] st = st"
  by (simp add: run_def)

lemma run_Cons: "run (x # xs) st = run xs (step x st)"
  by (simp add: run_def)

lemma run_snoc: "run (xs @ [x]) st = step x (run xs st)"
  by (simp add: run_def)

lemma od_inv_run: "od_inv (cache_dict st) \<Longrightarrow> od_inv (cache_dict (run xs st))"
  by (induction xs arbitrary: st) (simp_all add: run_Nil run_Cons od_inv_step)

text \<open>Every state reached from the empty store has distinct keys.\<close>

lemma od_inv_reachable: "od_inv (cache_dict (run xs (init capacity default_lt max_lt)))"
  by (rule od_inv_run) (simp add: init_def od_inv_def)

section \<open>Removing the last entry of a bucket\<close>






section \<open>Memoization\<close>

lemma cache_decorator_int:
  "cache_decorator key (PyInt n) st = Inr (Decorator key (min n (max_life_time st)))"
  by (simp add: cache_decorator_def py_min_def)

lemma cache_decorator_none:
  "cache_decorator key PyNone st = Inr (Decorator key (default_life_time st))"
  by (simp add: cache_decorator_def)

lemma cache_decorator_str: "cache_decorator key (PyStr s) st = Inl TypeError"
  by (simp add: cache_decorator_def py_min_def)

text \<open>
  With \<^verbatim>\<open>life_time\<close> omitted the parameter is the string \<^verbatim>\<open>"None"\<close>, which is not
  \<^verbatim>\<open>None\<close>: the call reaches \<^verbatim>\<open>min\<close> and raises.
\<close>

lemma cache_decorator_default_raises: "cache_decorator_default key st = Inl TypeError"
  by (simp add: cache_decorator_default_def cache_decorator_str)

lemma decorator_Some:
  "decorator (Decorator (Some key) lt) f st =
     Inr (Wrapper f,
          snd (add_to_cache key (FunctionCacheItem (next_id st) None lt f)
                 (st\<lparr>next_id := Suc (next_id st),
                     function_cache := (function_cache st)(f := Some
                        (FunctionCacheItem (next_id st) None lt f))\<rparr>)))"
  by (simp add: decorator_def Let_def split: prod.splits)

lemma decorator_None: "decorator (Decorator None lt) f st = Inl (ValueError ''key is None!'')"
  by (simp add: decorator_def)


text \<open>
  C4, as stated, fails: a negative \<^verbatim>\<open>life_time\<close> is stored as it is, below the
  interval \<open>[0, max_life_time]\<close>.
\<close>

theorem life_time_resolution_counterexample:
  "\<not> isl (memoize (Some ''Q'') (PyInt (- 5)) ''f'' (init 2 60 3600 :: (nat, string) state)) \<and>
   map_option function_life_time
     (wrapper_item (Wrapper ''f'')
        (snd (projr (memoize (Some ''Q'') (PyInt (- 5)) ''f''
                       (init 2 60 3600 :: (nat, string) state))))) = Some (- 5) \<and>
   map_of (cache_dict (snd (projr (memoize (Some ''Q'') (PyInt (- 5)) ''f''
                       (init 2 60 3600 :: (nat, string) state))))) ''Q''
     = Some [FunctionCacheItem 0 None (- 5) ''f''] \<and>
   \<not> (0 \<le> function_life_time (FunctionCacheItem 0 None (- 5) ''f'' :: (nat, string) cache_item))"
  by (simp add: memoize_def cache_decorator_int decorator_Some init_def add_to_cache_def
      od_contains_def od_setitem_def is_valid_size_def size_cache_def wrapper_item_def)

text \<open>
  C4, amended. When an integer \<^verbatim>\<open>life_time\<close> is supplied, registration succeeds and the
  life time stored in the function's entry is \<open>min life_time max_life_time\<close>: it is at
  most \<open>max_life_time\<close>, and it is non-negative exactly when \<^verbatim>\<open>life_time\<close> and
  \<open>max_life_time\<close> both are (there is no lower clamp). When \<^verbatim>\<open>life_time\<close> is passed
  as \<^verbatim>\<open>None\<close>, the stored life time is \<open>default_life_time\<close>, as it is.
\<close>

theorem life_time_resolution:
  "(\<exists>st'. memoize (Some key) (PyInt n) f st = Inr (Wrapper f, st') \<and>
      map_option function_life_time (wrapper_item (Wrapper f) st') = Some (min n (max_life_time st)) \<and>
      min n (max_life_time st) \<le> max_life_time st \<and>
      (0 \<le> min n (max_life_time st) \<longleftrightarrow> 0 \<le> n \<and> 0 \<le> max_life_time st)) \<and>
   (\<exists>st'. memoize (Some key) PyNone f st = Inr (Wrapper f, st') \<and>
      map_option function_life_time (wrapper_item (Wrapper f) st') = Some (default_life_time st))"
  by (auto simp: memoize_def cache_decorator_int cache_decorator_none decorator_Some
      wrapper_item_def add_to_cache_fields)

theorem life_time_resolution_witness:
  "map_option function_life_time (wrapper_item (Wrapper ''f'')
     (snd (projr (memoize (Some ''Q'') (PyInt 7200) ''f'' (init 2 60 3600 :: (nat, string) state)))))
     = Some 3600 \<and>
   map_option function_life_time (wrapper_item (Wrapper ''f'')
     (snd (projr (memoize (Some ''Q'') (PyInt 30) ''f'' (init 2 60 3600 :: (nat, string) state)))))
     = Some 30 \<and>
   map_option function_life_time (wrapper_item (Wrapper ''f'')
     (snd (projr (memoize (Some ''Q'') PyNone ''f'' (init 2 60 3600 :: (nat, string) state)))))
     = Some 60"
  using life_time_resolution [of "''Q''" 7200 "''f''" "init 2 60 3600 :: (nat, string) state"]
    life_time_resolution [of "''Q''" 30 "''f''" "init 2 60 3600 :: (nat, string) state"]
  by (auto simp: init_def)

text \<open>
  C5, as stated, fails: the empty string (the list \<open>[]\<close> of characters) is a key
  like any other, and registration under it succeeds.
\<close>

theorem missing_key_counterexample:
  "\<not> isl (memoize (Some []) (PyInt 5) ''f'' (init 2 60 3600 :: (nat, string) state)) \<and>
   map_of (cache_dict (snd (projr (memoize (Some []) (PyInt 5) ''f''
                       (init 2 60 3600 :: (nat, string) state))))) []
     = Some [FunctionCacheItem 0 None 5 ''f'']"
  by (simp add: memoize_def cache_decorator_int decorator_Some init_def add_to_cache_def
      od_contains_def od_setitem_def is_valid_size_def size_cache_def)

text \<open>
  C5, amended. \<^verbatim>\<open>cache_decorator\<close> itself accepts the key \<^verbatim>\<open>None\<close>; the registration
  (\<^verbatim>\<open>decorator(function)\<close>) then raises \<^verbatim>\<open>ValueError\<close> and returns no wrapper, so no
  call of the wrapped function can precede the error. For every key that is not
  \<^verbatim>\<open>None\<close>, the empty string included, registration with an integer or \<^verbatim>\<open>None\<close>
  life time raises nothing and returns the wrapper.
\<close>

theorem missing_key:
  "cache_decorator None (PyInt n) st = Inr (Decorator None (min n (max_life_time st))) \<and>
   decorator (Decorator None lt) f st = Inl (ValueError ''key is None!'') \<and>
   memoize None (PyInt n) f st = Inl (ValueError ''key is None!'') \<and>
   memoize None PyNone f st = Inl (ValueError ''key is None!'') \<and>
   (\<forall>key. (\<exists>st'. decorator (Decorator (Some key) lt) f st = Inr (Wrapper f, st')) \<and>
          (\<exists>st'. memoize (Some key) (PyInt n) f st = Inr (Wrapper f, st')) \<and>
          (\<exists>st'. memoize (Some key) PyNone f st = Inr (Wrapper f, st')))"
  by (simp add: memoize_def cache_decorator_int cache_decorator_none decorator_Some
      decorator_None)

theorem missing_key_witness:
  "memoize None (PyInt 5) ''f'' (init 2 60 3600 :: (nat, string) state) =
     Inl (ValueError ''key is None!'') \<and>
   isl (decorator (Decorator None 5) ''f'' (init 2 60 3600 :: (nat, string) state)) \<and>
   \<not> isl (memoize (Some ''Q'') (PyInt 5) ''f'' (init 2 60 3600 :: (nat, string) state)) \<and>
   \<not> isl (memoize (Some []) PyNone ''f'' (init 2 60 3600 :: (nat, string) state))"
proof -
  note m = missing_key [of 5 "init 2 60 3600 :: (nat, string) state" 5 "''f''"]
  from m have a: "memoize None (PyInt 5) ''f'' (init 2 60 3600 :: (nat, string) state) =
     Inl (ValueError ''key is None!'')"
    and b: "decorator (Decorator None 5) ''f'' (init 2 60 3600 :: (nat, string) state) =
     Inl (ValueError ''key is None!'')"
    by blast+
  from m obtain s1 where
    c: "memoize (Some ''Q'') (PyInt 5) ''f'' (init 2 60 3600 :: (nat, string) state) =
          Inr (Wrapper ''f'', s1)"
    by blast
  from m obtain s2 where
    d: "memoize (Some []) PyNone ''f'' (init 2 60 3600 :: (nat, string) state) =
          Inr (Wrapper ''f'', s2)"
    by blast
  show ?thesis using a b c d by simp
qed




section \<open>Recency order and eviction\<close>

lemma last_touch_snoc:
  "last_touch (xs @ [x]) key =
     (if touched x = Some key then Suc (length xs) else last_touch xs key)"
  by (induction xs) auto

lemma last_touch_le: "last_touch xs key \<le> length xs"
  by (induction xs) auto

lemma recency_filter: "recency_ordered stamp ks \<Longrightarrow> recency_ordered stamp (filter P ks)"
  by (simp add: recency_ordered_def sorted_wrt_filter)

lemma recency_tl: "recency_ordered stamp ks \<Longrightarrow> recency_ordered stamp (tl ks)"
  by (cases ks) (simp_all add: recency_ordered_def)

lemma recency_cong:
  "(\<And>k. k \<in> set ks \<Longrightarrow> stamp' k = stamp k) \<Longrightarrow>
   recency_ordered stamp' ks = recency_ordered stamp ks"
  unfolding recency_ordered_def by (induction ks) auto

lemma recency_distinct: "recency_ordered stamp ks \<Longrightarrow> distinct ks"
  unfolding recency_ordered_def by (induction ks) auto

lemma recency_untouched:
  assumes "recency_ordered (last_touch xs) ks" "\<And>k. k \<in> set ks \<Longrightarrow> touched x \<noteq> Some k"
  shows "recency_ordered (last_touch (xs @ [x])) ks"
proof -
  have "recency_ordered (last_touch (xs @ [x])) ks = recency_ordered (last_touch xs) ks"
    by (rule recency_cong) (use assms(2) in \<open>simp add: last_touch_snoc\<close>)
  then show ?thesis using assms(1) by simp
qed

lemma recency_touch:
  assumes "recency_ordered (last_touch xs) ks" "touched x = Some k"
  shows "recency_ordered (last_touch (xs @ [x])) (filter (\<lambda>a. a \<noteq> k) ks @ [k])"
proof -
  let ?ks = "filter (\<lambda>a. a \<noteq> k) ks"
  have "recency_ordered (last_touch xs) ?ks"
    using assms(1) by (rule recency_filter)
  moreover
  have "recency_ordered (last_touch (xs @ [x])) ?ks = recency_ordered (last_touch xs) ?ks"
    by (rule recency_cong) (use assms(2) in \<open>auto simp: last_touch_snoc\<close>)
  ultimately have "recency_ordered (last_touch (xs @ [x])) ?ks" by simp
  moreover have "\<forall>a \<in> set ?ks. last_touch (xs @ [x]) a < last_touch (xs @ [x]) k"
    using assms(2) last_touch_le [of xs] by (auto simp: last_touch_snoc less_Suc_eq_le)
  ultimately show ?thesis
    by (simp add: recency_ordered_def sorted_wrt_append)
qed

lemma od_keys_popitem_first: "od_keys (popitem_first d) = tl (od_keys d)"
  by (cases d) (simp_all add: popitem_first_def od_keys_def)

lemma od_keys_add_to_cache:
  "od_keys (cache_dict (snd (add_to_cache key item st))) =
     (if length (cache_dict st) < max_size st \<or> od_contains key (cache_dict st)
      then filter (\<lambda>a. a \<noteq> key) (od_keys (cache_dict st)) @ [key]
      else tl (filter (\<lambda>a. a \<noteq> key) (od_keys (cache_dict st)) @ [key]))"
proof (cases "od_contains key (cache_dict st)")
  case True
  then show ?thesis
    by (simp add: cache_dict_add_to_cache od_keys_move_to_end od_contains_append od_keys_append)
next
  case False
  then have "filter (\<lambda>a. a \<noteq> key) (od_keys (cache_dict st)) = od_keys (cache_dict st)"
    by (auto simp: od_contains_iff intro!: filter_True)
  then show ?thesis
    using False by (simp add: cache_dict_add_to_cache od_keys_popitem_first) (simp add: od_keys_def)
qed

lemma od_keys_set_data:
  "od_keys (cache_dict (snd (set_data key data lt st))) =
     filter (\<lambda>a. a \<noteq> key) (od_keys (cache_dict st)) @ [key]"
  by (simp add: cache_dict_set_data od_keys_move_to_end od_contains_setitem od_keys_setitem)

lemma od_keys_get_cache:
  "od_keys (cache_dict (snd (get_cache dat key st))) =
     (if od_contains key (cache_dict st)
      then filter (\<lambda>a. a \<noteq> key) (od_keys (cache_dict st)) @ [key]
      else od_keys (cache_dict st))"
  by (simp add: cache_dict_get_cache od_keys_move_to_end)

lemma od_keys_remove_cache:
  "od_keys (cache_dict (snd (remove_cache dat key data st))) = od_keys (cache_dict st)"
  by (simp add: cache_dict_remove_cache od_keys_setitem od_contains_def split: option.splits)

lemma od_keys_reset:
  "\<exists>P. od_keys (cache_dict (snd (reset keys st))) = filter P (od_keys (cache_dict st))"
proof (cases "keys = None \<or> keys = Some []")
  case True
  then have "od_keys (cache_dict (snd (reset keys st))) = filter (\<lambda>k. False) (od_keys (cache_dict st))"
    by (auto simp: cache_dict_reset od_keys_def)
  then show ?thesis by blast
next
  case False
  then obtain ks where "keys = Some ks" "ks \<noteq> []" by (cases keys) auto
  then have "od_keys (cache_dict (snd (reset keys st))) =
      filter (\<lambda>k. k \<notin> set ks) (od_keys (cache_dict st))"
    by (simp add: cache_dict_reset od_keys_def map_fst_filter_key)
  then show ?thesis by blast
qed

lemma recency_clean:
  assumes "recency_ordered stamp (od_keys (cache_dict st))"
  shows "recency_ordered stamp (od_keys (cache_dict (snd (clean dat st))))"
proof -
  let ?h = "\<lambda>(k, b). (k, filter (\<lambda>item. dat item \<noteq> None) b)"
  let ?Q = "\<lambda>(k, b). b \<noteq> ([] :: ('a, 'b) cache_item list)"
  have inv: "od_inv (cache_dict st)"
    using recency_distinct [OF assms] by (simp add: od_inv_def od_keys_def)
  have "map fst (filter ?Q (map ?h (cache_dict st))) = map fst (filter (?Q \<circ> ?h) (cache_dict st))"
    by (simp add: filter_map case_prod_unfold comp_def)
  moreover have "sorted_wrt (\<lambda>a b. stamp a < stamp b) (map fst (filter (?Q \<circ> ?h) (cache_dict st)))"
    using assms by (simp add: recency_ordered_def od_keys_def sorted_wrt_map sorted_wrt_filter)
  ultimately show ?thesis
    by (simp add: cache_dict_clean [OF inv] recency_ordered_def od_keys_def)
qed

lemma recency_add_to_cache:
  assumes "recency_ordered (last_touch xs) (od_keys (cache_dict st))" "touched x = Some key"
  shows "recency_ordered (last_touch (xs @ [x]))
           (od_keys (cache_dict (snd (add_to_cache key item st))))"
  using recency_touch [OF assms] recency_tl [OF recency_touch [OF assms]]
  by (simp add: od_keys_add_to_cache)

lemma recency_step:
  assumes r: "recency_ordered (last_touch xs) (od_keys (cache_dict st))"
  shows "recency_ordered (last_touch (xs @ [x])) (od_keys (cache_dict (step x st)))"
proof (cases x)
  case (AddOrUpdate key data lt)
  show ?thesis
    using recency_add_to_cache [of xs "st\<lparr>next_id := Suc (next_id st)\<rparr>" x key] r
    by (simp add: AddOrUpdate cache_dict_add_or_update)
next
  case (SetData key data lt)
  show ?thesis
    using recency_touch [OF r, of x key] by (simp add: SetData od_keys_set_data)
next
  case (GetCache dat key)
  show ?thesis
  proof (cases "od_contains key (cache_dict st)")
    case True
    then show ?thesis
      using recency_touch [OF r, of x key] by (simp add: GetCache od_keys_get_cache)
  next
    case False
    then have "recency_ordered (last_touch (xs @ [x])) (od_keys (cache_dict st))"
      using r by (intro recency_untouched) (auto simp: GetCache od_contains_iff)
    then show ?thesis using False by (simp add: GetCache od_keys_get_cache)
  qed
next
  case (Remove dat key data)
  have "recency_ordered (last_touch (xs @ [x])) (od_keys (cache_dict st))"
    using r by (intro recency_untouched) (auto simp: Remove)
  then show ?thesis by (simp add: Remove od_keys_remove_cache)
next
  case (Reset keys)
  have "recency_ordered (last_touch (xs @ [x])) (od_keys (cache_dict st))"
    using r by (intro recency_untouched) (auto simp: Reset)
  then show ?thesis
    using od_keys_reset [of keys st] by (auto simp: Reset recency_filter)
next
  case (Clean dat)
  have "recency_ordered (last_touch (xs @ [x])) (od_keys (cache_dict st))"
    using r by (intro recency_untouched) (auto simp: Clean)
  then show ?thesis by (simp add: Clean recency_clean)
next
  case (Memoize k lt fn)
  show ?thesis
  proof (cases "memoize k lt fn st")
    case (Inl e)
    then have "touched x = None"
      by (cases lt; cases k)
        (auto simp: Memoize memoize_def cache_decorator_def py_min_def decorator_def Let_def
          split: prod.splits)
    then have "recency_ordered (last_touch (xs @ [x])) (od_keys (cache_dict st))"
      using r by (intro recency_untouched) auto
    then show ?thesis using Inl by (simp add: Memoize)
  next
    case (Inr p)
    obtain w st' where p: "p = (w, st')" by (cases p)
    from memoize_cases [OF Inr [unfolded p]] obtain k' n where
      k: "k = Some k'" and
      st': "st' = snd (add_to_cache k' (FunctionCacheItem (next_id st) None n fn)
                 (st\<lparr>next_id := Suc (next_id st),
                     function_cache := (function_cache st)(fn := Some
                        (FunctionCacheItem (next_id st) None n fn))\<rparr>))"
      by blast
    have "lt \<noteq> PyStr s" for s
      using Inr by (auto simp: memoize_def cache_decorator_def py_min_def)
    then have t: "touched x = Some k'"
      by (cases lt) (auto simp: Memoize k)
    show ?thesis
      using recency_add_to_cache [of xs "st\<lparr>next_id := Suc (next_id st),
                     function_cache := (function_cache st)(fn := Some
                        (FunctionCacheItem (next_id st) None n fn))\<rparr>" x k'
                "FunctionCacheItem (next_id st) None n fn"] r t
      by (simp add: Memoize Inr p st')
  qed
qed

lemma recency_run:
  "cache_dict st = [] \<Longrightarrow>
   recency_ordered (last_touch xs) (od_keys (cache_dict (run xs st)))"
proof (induction xs rule: rev_induct)
  case Nil
  then show ?case by (simp add: run_Nil recency_ordered_def od_keys_def)
next
  case (snoc x xs)
  then show ?case by (simp add: run_snoc recency_step)
qed

lemma sorted_wrt_hd_least: "sorted_wrt R l \<Longrightarrow> k \<in> set l \<Longrightarrow> k \<noteq> hd l \<Longrightarrow> R (hd l) k"
  by (cases l) auto

lemma map_of_evicted:
  assumes "\<not> od_contains key d"
  shows "(\<forall>k. k \<noteq> fst (hd (d @ [(key, [item])])) \<and> k \<noteq> key \<longrightarrow>
            map_of (popitem_first (d @ [(key, [item])])) k = map_of d k) \<and>
         (fst (hd (d @ [(key, [item])])) \<noteq> key \<longrightarrow>
            map_of (popitem_first (d @ [(key, [item])])) key = Some [item])"
proof (cases d)
  case Nil
  then show ?thesis by (simp add: popitem_first_def)
next
  case (Cons p rest)
  have "map_of rest key = None"
    using assms by (cases p) (auto simp: Cons od_contains_def split: if_splits)
  then show ?thesis
    by (cases p) (auto simp: Cons popitem_first_def map_add_def split: option.splits)
qed

lemma put_step:
  assumes "x = AddOrUpdate key data lt \<or> x = Memoize (Some key) (PyInt n) f \<or>
           x = Memoize (Some key) PyNone f"
  shows "touched x = Some key \<and>
         (\<exists>item st1. cache_dict st1 = cache_dict st \<and> max_size st1 = max_size st \<and>
            step x st = snd (add_to_cache key item st1))"
proof -
  consider (a) "x = AddOrUpdate key data lt" | (b) "x = Memoize (Some key) (PyInt n) f"
    | (c) "x = Memoize (Some key) PyNone f"
    using assms by blast
  then show ?thesis
  proof cases
    case a
    have "step x st = snd (add_to_cache key (CostumCacheItem (next_id st) data lt)
                             (st\<lparr>next_id := Suc (next_id st)\<rparr>))"
      by (simp add: a add_or_update_def new_costum_def)
    moreover have "cache_dict (st\<lparr>next_id := Suc (next_id st)\<rparr>) = cache_dict st"
      "max_size (st\<lparr>next_id := Suc (next_id st)\<rparr>) = max_size st"
      by simp_all
    ultimately show ?thesis using a by (metis touched.simps(1))
  next
    case b
    let ?i = "FunctionCacheItem (next_id st) None (min n (max_life_time st)) f"
    let ?s = "st\<lparr>next_id := Suc (next_id st),
                  function_cache := (function_cache st)(f := Some ?i)\<rparr>"
    have "step x st = snd (add_to_cache key ?i ?s)"
      by (simp add: b memoize_def cache_decorator_int decorator_Some)
    moreover have "cache_dict ?s = cache_dict st" "max_size ?s = max_size st"
      by simp_all
    moreover have "touched x = Some key" by (simp add: b)
    ultimately show ?thesis by blast
  next
    case c
    let ?i = "FunctionCacheItem (next_id st) None (default_life_time st) f"
    let ?s = "st\<lparr>next_id := Suc (next_id st),
                  function_cache := (function_cache st)(f := Some ?i)\<rparr>"
    have "step x st = snd (add_to_cache key ?i ?s)"
      by (simp add: c memoize_def cache_decorator_none decorator_Some)
    moreover have "cache_dict ?s = cache_dict st" "max_size ?s = max_size st"
      by simp_all
    moreover have "touched x = Some key" by (simp add: c)
    ultimately show ?thesis by blast
  qed
qed

text \<open>
  C2. Take any history \<open>xs\<close> of public calls from an empty store, and a put \<open>x\<close>
  (\<^verbatim>\<open>add_or_update\<close>, or a registration, both through \<^verbatim>\<open>_add_to_cache\<close>) of a key that
  is not in the store, when the store already holds \<open>max_size\<close> keys or more. Then exactly
  one bucket, \<open>victim\<close>, leaves the store: the keys afterwards are the former keys
  followed by the new key, with \<open>victim\<close> taken out; every other bucket is unchanged and
  the new key holds one entry. \<open>victim\<close> is the least recently touched key: its last
  touch in the history is strictly earlier than that of every other key. (A bucket that
  was never touched again has its insertion as its last touch, so among such buckets the
  one inserted first goes.) In particular, with capacity 2, putting \<open>A\<close>, \<open>B\<close> and
  \<open>C\<close> leaves exactly the keys \<open>B\<close> and \<open>C\<close>.
\<close>

theorem eviction_least_recently_touched:
  assumes start: "cache_dict st0 = []"
    and put: "x = AddOrUpdate key data lt \<or> x = Memoize (Some key) (PyInt n) f \<or>
              x = Memoize (Some key) PyNone f"
    and new: "\<not> od_contains key (cache_dict (run xs st0))"
    and over: "max_size (run xs st0) < Suc (size_cache (run xs st0))"
  shows "(\<exists>victim.
           victim \<in> set (od_keys (cache_dict (run xs st0)) @ [key]) \<and>
           od_keys (cache_dict (run (xs @ [x]) st0)) =
             remove1 victim (od_keys (cache_dict (run xs st0)) @ [key]) \<and>
           (\<forall>k \<in> set (od_keys (cache_dict (run xs st0)) @ [key]).
              k \<noteq> victim \<longrightarrow> last_touch (xs @ [x]) victim < last_touch (xs @ [x]) k) \<and>
           (\<forall>k. k \<noteq> victim \<and> k \<noteq> key \<longrightarrow>
              map_of (cache_dict (run (xs @ [x]) st0)) k = map_of (cache_dict (run xs st0)) k) \<and>
           (victim \<noteq> key \<longrightarrow>
              (\<exists>item. map_of (cache_dict (run (xs @ [x]) st0)) key = Some [item]))) \<and>
         od_keys (cache_dict (run [AddOrUpdate ''A'' a la, AddOrUpdate ''B'' b lb,
                                    AddOrUpdate ''C'' c lc] (init 2 dl ml)))
           = [''B'', ''C'']"
proof
  let ?st = "run xs st0"
  let ?d = "cache_dict ?st"
  let ?ks = "od_keys ?d"
  let ?l = "?ks @ [key]"
  let ?stamp = "last_touch (xs @ [x])"
  let ?victim = "hd ?l"
  from put_step [OF put, of ?st] obtain item st1 where
    t: "touched x = Some key" and d1: "cache_dict st1 = ?d" and m1: "max_size st1 = max_size ?st"
    and s: "step x ?st = snd (add_to_cache key item st1)"
    by blast
  have nk: "key \<notin> set ?ks" using new by (simp add: od_contains_iff)
  then have f: "filter (\<lambda>a. a \<noteq> key) ?ks = ?ks"
    by (auto intro!: filter_True)
  have full: "\<not> length ?d < max_size ?st"
    using over by (simp add: size_cache_def)
  have d': "cache_dict (run (xs @ [x]) st0) = popitem_first (?d @ [(key, [item])])"
    using new full by (simp add: run_snoc s cache_dict_add_to_cache d1 m1)
  have keys': "od_keys (cache_dict (run (xs @ [x]) st0)) = tl ?l"
    by (simp add: d' od_keys_popitem_first) (simp add: od_keys_def)
  have r: "recency_ordered ?stamp ?l"
    using recency_touch [OF recency_run [OF start, of xs] t] f by simp
  have least: "\<forall>k \<in> set ?l. k \<noteq> ?victim \<longrightarrow> ?stamp ?victim < ?stamp k"
    using r sorted_wrt_hd_least [of "\<lambda>a b. ?stamp a < ?stamp b" ?l]
    by (auto simp: recency_ordered_def)
  have rem: "remove1 ?victim ?l = tl ?l"
    by (cases ?l) simp_all
  have hdfst: "fst (hd (?d @ [(key, [item])])) = ?victim"
    by (cases ?d) (simp_all add: od_keys_def)
  have others: "\<forall>k. k \<noteq> ?victim \<and> k \<noteq> key \<longrightarrow>
      map_of (cache_dict (run (xs @ [x]) st0)) k = map_of ?d k"
    and own: "?victim \<noteq> key \<longrightarrow> map_of (cache_dict (run (xs @ [x]) st0)) key = Some [item]"
    using map_of_evicted [OF new, of item] by (simp_all add: d' hdfst)
  have "?victim \<in> set ?l" by (rule hd_in_set) simp
  then show "\<exists>victim.
           victim \<in> set ?l \<and>
           od_keys (cache_dict (run (xs @ [x]) st0)) = remove1 victim ?l \<and>
           (\<forall>k \<in> set ?l. k \<noteq> victim \<longrightarrow> ?stamp victim < ?stamp k) \<and>
           (\<forall>k. k \<noteq> victim \<and> k \<noteq> key \<longrightarrow>
              map_of (cache_dict (run (xs @ [x]) st0)) k = map_of ?d k) \<and>
           (victim \<noteq> key \<longrightarrow>
              (\<exists>item. map_of (cache_dict (run (xs @ [x]) st0)) key = Some [item]))"
    using keys' rem least others own by (intro exI [of _ ?victim]) auto
next
  show "od_keys (cache_dict (run [AddOrUpdate ''A'' a la, AddOrUpdate ''B'' b lb,
                                    AddOrUpdate ''C'' c lc] (init 2 dl ml)))
           = [''B'', ''C'']"
    by (simp add: run_def init_def add_or_update_def new_costum_def add_to_cache_def
        od_contains_def od_setitem_def is_valid_size_def size_cache_def popitem_first_def
        od_keys_def)
qed

theorem eviction_least_recently_touched_witness:
  "cache_dict (init 2 60 3600 :: (nat, string) state) = [] \<and>
   \<not> od_contains ''C'' (cache_dict (run [AddOrUpdate ''A'' (Some 1) None,
        AddOrUpdate ''B'' (Some 2) None] (init 2 60 3600 :: (nat, string) state))) \<and>
   max_size (run [AddOrUpdate ''A'' (Some 1) None, AddOrUpdate ''B'' (Some 2) None]
       (init 2 60 3600 :: (nat, string) state))
     < Suc (size_cache (run [AddOrUpdate ''A'' (Some 1) None, AddOrUpdate ''B'' (Some 2) None]
       (init 2 60 3600 :: (nat, string) state))) \<and>
   od_keys (cache_dict (run ([AddOrUpdate ''A'' (Some 1) None, AddOrUpdate ''B'' (Some 2) None]
       @ [AddOrUpdate ''C'' (Some 3) None]) (init 2 60 3600 :: (nat, string) state)))
     = [''B'', ''C''] \<and>
   last_touch ([AddOrUpdate ''A'' (Some 1) None, AddOrUpdate ''B'' (Some 2) None]
       @ [AddOrUpdate ''C'' (Some 3) None :: (nat, string) operation]) ''A'' = 1 \<and>
   last_touch ([AddOrUpdate ''A'' (Some 1) None, AddOrUpdate ''B'' (Some 2) None]
       @ [AddOrUpdate ''C'' (Some 3) None :: (nat, string) operation]) ''B'' = 2 \<and>
   last_touch ([AddOrUpdate ''A'' (Some 1) None, AddOrUpdate ''B'' (Some 2) None]
       @ [AddOrUpdate ''C'' (Some 3) None :: (nat, string) operation]) ''C'' = 3"
proof -
  let ?st0 = "init 2 60 3600 :: (nat, string) state"
  let ?xs = "[AddOrUpdate ''A'' (Some 1) None, AddOrUpdate ''B'' (Some 2) None]
               :: (nat, string) operation list"
  let ?x = "AddOrUpdate ''C'' (Some 3) None :: (nat, string) operation"
  have r: "run ?xs ?st0 =
      \<lparr>max_size = 2, default_life_time = 60, max_life_time = 3600,
       cache_dict = [(''A'', [CostumCacheItem 0 (Some 1) None]),
                     (''B'', [CostumCacheItem 1 (Some 2) None])],
       next_id = 2, function_cache = (\<lambda>f. None)\<rparr>"
    by (simp add: run_def init_def add_or_update_def new_costum_def add_to_cache_def
        od_contains_def od_setitem_def is_valid_size_def size_cache_def)
  have h1: "cache_dict ?st0 = []" by (simp add: init_def)
  have h2: "?x = AddOrUpdate ''C'' (Some 3) None \<or> ?x = Memoize (Some ''C'') (PyInt 0) ''f'' \<or>
            ?x = Memoize (Some ''C'') PyNone ''f''"
    by simp
  have h3: "\<not> od_contains ''C'' (cache_dict (run ?xs ?st0))"
    unfolding r by (simp add: od_contains_def)
  have h4: "max_size (run ?xs ?st0) < Suc (size_cache (run ?xs ?st0))"
    unfolding r by (simp add: size_cache_def)
  have ks: "od_keys (cache_dict (run ?xs ?st0)) = [''A'', ''B'']"
    unfolding r by (simp add: od_keys_def)
  have sa: "last_touch (?xs @ [?x]) ''A'' = 1" and sb: "last_touch (?xs @ [?x]) ''B'' = 2"
    and sc: "last_touch (?xs @ [?x]) ''C'' = 3"
    by simp_all
  from eviction_least_recently_touched [OF h1 h2 h3 h4] obtain v where
    v1: "v \<in> set (od_keys (cache_dict (run ?xs ?st0)) @ [''C''])" and
    v2: "od_keys (cache_dict (run (?xs @ [?x]) ?st0)) =
           remove1 v (od_keys (cache_dict (run ?xs ?st0)) @ [''C''])" and
    v3: "\<forall>k \<in> set (od_keys (cache_dict (run ?xs ?st0)) @ [''C'']).
           k \<noteq> v \<longrightarrow> last_touch (?xs @ [?x]) v < last_touch (?xs @ [?x]) k"
    by blast
  have "''A'' \<noteq> v \<longrightarrow> last_touch (?xs @ [?x]) v < last_touch (?xs @ [?x]) ''A''"
    using v3 unfolding ks by simp
  moreover have "v = ''A'' \<or> v = ''B'' \<or> v = ''C''"
    using v1 unfolding ks by auto
  ultimately have "v = ''A''"
    using sa sb sc by auto
  then have k: "od_keys (cache_dict (run (?xs @ [?x]) ?st0)) = [''B'', ''C'']"
    using v2 unfolding ks by simp
  show ?thesis
    using h1 h3 h4 k sa sb sc by simp
qed

section \<open>The capacity bound\<close>

text \<open>
  C1. \<^verbatim>\<open>set_data\<close> stores a new key without the capacity check that
  \<^verbatim>\<open>_add_to_cache\<close> makes: with capacity 1, \<^verbatim>\<open>set_data("A", 1)\<close> and then
  \<^verbatim>\<open>set_data("B", 2)\<close> leave two keys in the store.
\<close>

theorem set_data_exceeds_capacity:
  "size_cache (run [SetData ''A'' (Some 1) None, SetData ''B'' (Some 2) None]
                 (init 1 60 3600 :: (nat, string) state)) = 2 \<and>
   max_size (run [SetData ''A'' (Some 1) None, SetData ''B'' (Some 2) None]
                 (init 1 60 3600 :: (nat, string) state)) = 1"
  by (simp add: run_def init_def set_data_def new_costum_def od_contains_def od_setitem_def
      move_to_end_def size_cache_def)

text \<open>
  Every other public call keeps the bound: from a store within its capacity, a sequence of
  calls without \<^verbatim>\<open>set_data\<close> never leaves more than \<open>max_size\<close> keys.
\<close>

lemma max_size_step: "max_size (step x st) = max_size st"
proof (cases x)
  case (Memoize k lt fn)
  show ?thesis
  proof (cases "memoize k lt fn st")
    case (Inl e)
    then show ?thesis by (simp add: Memoize)
  next
    case (Inr p)
    obtain w st' where p: "p = (w, st')" by (cases p)
    from memoize_cases [OF Inr [unfolded p]] show ?thesis
      by (auto simp: Memoize Inr p add_to_cache_fields)
  qed
qed (simp_all add: add_or_update_def new_costum_def add_to_cache_fields set_data_def
    get_cache_def Let_def remove_cache_def reset_def clean_def split: option.splits)

lemma length_move_to_end: "length (move_to_end key d) \<le> length d"
proof (cases "map_of d key")
  case None
  then show ?thesis by (simp add: move_to_end_def)
next
  case (Some v)
  then have "(key, v) \<in> set d" by (rule map_of_SomeD)
  then have "length (filter (\<lambda>(k, w). k \<noteq> key) d) < length d"
    by (intro length_filter_less [of "(key, v)"]) auto
  then show ?thesis using Some by (simp add: move_to_end_def)
qed

lemma length_od_append: "length (od_append key x d) = length d"
  by (simp add: od_append_def)

lemma length_od_setitem_present: "od_contains key d \<Longrightarrow> length (od_setitem key v d) = length d"
  by (simp add: od_setitem_def)

lemma length_popitem_snoc: "length (popitem_first (d @ [p])) = length d"
  by (cases d) (simp_all add: popitem_first_def)

lemma size_add_to_cache:
  assumes "size_cache st \<le> max_size st"
  shows "size_cache (snd (add_to_cache key item st)) \<le> max_size st"
proof (cases "od_contains key (cache_dict st)")
  case True
  have "length (move_to_end key (od_append key item (cache_dict st))) \<le> length (cache_dict st)"
    using length_move_to_end [of key "od_append key item (cache_dict st)"]
    by (simp add: length_od_append)
  then show ?thesis
    using True assms by (simp add: size_cache_def cache_dict_add_to_cache)
next
  case False
  then show ?thesis
    using assms by (simp add: size_cache_def cache_dict_add_to_cache length_popitem_snoc)
qed

lemma size_step:
  assumes inv: "od_inv (cache_dict st)" and b: "size_cache st \<le> max_size st"
    and ns: "\<not> is_set_data x"
  shows "size_cache (step x st) \<le> max_size st"
proof (cases x)
  case (AddOrUpdate key data lt)
  show ?thesis
    using size_add_to_cache [of "st\<lparr>next_id := Suc (next_id st)\<rparr>" key] b
    by (simp add: AddOrUpdate add_or_update_def new_costum_def size_cache_def)
next
  case (SetData key data lt)
  then show ?thesis using ns by simp
next
  case (GetCache dat key)
  show ?thesis
    using b length_move_to_end [of key "cache_dict st"]
    by (simp add: GetCache size_cache_def cache_dict_get_cache)
next
  case (Remove dat key data)
  show ?thesis
    using b by (simp add: Remove size_cache_def cache_dict_remove_cache length_od_setitem_present
        od_contains_def split: option.splits)
next
  case (Reset keys)
  have "length (filter P (cache_dict st)) \<le> max_size st" for P
    by (rule le_trans [OF length_filter_le]) (use b in \<open>simp add: size_cache_def\<close>)
  then show ?thesis
    by (simp add: Reset cache_dict_reset size_cache_def split: option.splits)
next
  case (Clean dat)
  have "length (filter P (map h (cache_dict st))) \<le> max_size st" for P h
    by (rule le_trans [OF length_filter_le]) (use b in \<open>simp add: size_cache_def\<close>)
  then show ?thesis
    by (simp add: Clean cache_dict_clean [OF inv] size_cache_def)
next
  case (Memoize k lt fn)
  show ?thesis
  proof (cases "memoize k lt fn st")
    case (Inl e)
    then show ?thesis using b by (simp add: Memoize)
  next
    case (Inr p)
    obtain w st' where p: "p = (w, st')" by (cases p)
    from memoize_cases [OF Inr [unfolded p]] obtain k' n where
      st': "st' = snd (add_to_cache k' (FunctionCacheItem (next_id st) None n fn)
                 (st\<lparr>next_id := Suc (next_id st),
                     function_cache := (function_cache st)(fn := Some
                        (FunctionCacheItem (next_id st) None n fn))\<rparr>))"
      by blast
    show ?thesis
      using size_add_to_cache [of "st\<lparr>next_id := Suc (next_id st),
                     function_cache := (function_cache st)(fn := Some
                        (FunctionCacheItem (next_id st) None n fn))\<rparr>" k'
                "FunctionCacheItem (next_id st) None n fn"] b
      by (simp add: Memoize Inr p st' size_cache_def)
  qed
qed

lemma size_bounded_without_set_data:
  "od_inv (cache_dict st) \<Longrightarrow> size_cache st \<le> max_size st \<Longrightarrow>
   \<forall>x \<in> set xs. \<not> is_set_data x \<Longrightarrow> size_cache (run xs st) \<le> max_size st"
proof (induction xs arbitrary: st)
  case Nil
  then show ?case by (simp add: run_Nil)
next
  case (Cons x xs)
  have "od_inv (cache_dict (step x st))" using Cons.prems(1) by (rule od_inv_step)
  moreover have "size_cache (step x st) \<le> max_size (step x st)"
    using size_step [OF Cons.prems(1,2), of x] Cons.prems(3) by (simp add: max_size_step)
  ultimately show ?case
    using Cons.IH [of "step x st"] Cons.prems(3) by (simp add: run_Cons max_size_step)
qed

lemma size_bounded_from_init:
  "\<forall>x \<in> set xs. \<not> is_set_data x \<Longrightarrow>
   size_cache (run xs (init capacity default_lt max_lt)) \<le> capacity"
  using size_bounded_without_set_data [of "init capacity default_lt max_lt" xs]
  by (simp add: init_def od_inv_def size_cache_def)

end
